theory Spec2Isabelle
  imports Complex_Main "HOL-Library.Char_ord" "HOL-Library.List_Lexorder"
begin

section \<open>The stream hook: ring buffer, statistics, marker log, render scheduling\<close>

text \<open>
  The definitions of this section embed \<^verbatim>\<open>useStreamData\<close> of
  \<^verbatim>\<open>src/hooks/useLslStreams.ts\<close>. JavaScript numbers that hold sample values and
  clock readings are modelled as \<^typ>\<open>real\<close> (finite, exact arithmetic); indices and
  counters are \<^typ>\<open>nat\<close>. The arithmetic of the chart's auto-range is modelled in
  double precision, see below. A \<^verbatim>\<open>Float64Array\<close> is a \<^typ>\<open>real list\<close> of fixed length:
  a write at an index outside the array is dropped by JavaScript, which is what
  \<^term>\<open>xs[i := v]\<close> does. The remainder \<^verbatim>\<open>(head + 1) % bufferSize\<close> is \<^verbatim>\<open>NaN\<close> for
  \<^verbatim>\<open>bufferSize = 0\<close>; every statement below about the write head assumes a positive
  \<^verbatim>\<open>bufferSize\<close>.
\<close>

subsection \<open>Data\<close>

datatype WsState = Connecting | Open | Closed | Error

record StreamStatistics =
  actualSampleRate :: nat
  totalSamples :: nat
  latestTimestamp :: real
  connectionUptime :: real

text \<open>A marker entry \<^verbatim>\<open>{ timestamp, value }\<close>.\<close>

record MarkerEntry =
  mtimestamp :: real
  mvalue :: string

text \<open>
  What \<^verbatim>\<open>onMessage\<close> receives. \<^verbatim>\<open>Junk\<close> is any datum that fails \<^verbatim>\<open>!sample\<close> or has
  neither field; in \<^verbatim>\<open>Sample t d\<close> the timestamp is \<^verbatim>\<open>None\<close> when \<^verbatim>\<open>sample.t\<close> is
  \<^verbatim>\<open>undefined\<close>, and the payload is \<^verbatim>\<open>None\<close> when \<^verbatim>\<open>sample.d\<close> is missing. The
  element type of the payload is the declared channel format of the stream: numbers
  for a numeric stream, strings for a string stream.
\<close>

datatype 'd message = Junk | Sample "real option" "'d list option"

text \<open>
  The refs and state of one mounted hook, with the part of the browser they talk to.
  \<^verbatim>\<open>allocId\<close> stands for the identity of the array objects held in \<^verbatim>\<open>buffersRef\<close> and
  \<^verbatim>\<open>tsRef\<close>: React compares props by identity, and both arrays are replaced together.
  Of the browser:
  \<^verbatim>\<open>frameQueue\<close> holds the handles of the animation-frame callbacks that have been
  requested and not yet run or cancelled, \<^verbatim>\<open>nextHandle\<close> is the next handle
  \<^verbatim>\<open>requestAnimationFrame\<close> returns, and \<^verbatim>\<open>tick\<close> is the state behind
  \<^verbatim>\<open>setTick\<close>, whose change re-renders the chart.
\<close>

record hook_state =
  buffersRef :: "real list list"
  tsRef :: "real list"
  writeHeadRef :: nat
  sampleCountRef :: nat
  tick :: nat
  rafRef :: "nat option"
  dirtyRef :: bool
  statsRef :: StreamStatistics
  connectTimeRef :: real
  rateWindowRef :: "real list"
  markers :: "MarkerEntry list"
  frameQueue :: "nat list"
  nextHandle :: nat
  allocId :: nat

definition initial_hook :: hook_state where
  "initial_hook =
     \<lparr> buffersRef = [], tsRef = [], writeHeadRef = 0, sampleCountRef = 0,
       tick = 0, rafRef = None, dirtyRef = False,
       statsRef = \<lparr> actualSampleRate = 0, totalSamples = 0,
                    latestTimestamp = 0, connectionUptime = 0 \<rparr>,
       connectTimeRef = 0, rateWindowRef = [], markers = [],
       frameQueue = [], nextHandle = 1, allocId = 0 \<rparr>"

subsection \<open>Buffer allocation\<close>

text \<open>Lines 232-238: the buffers are replaced when the channel count changes.\<close>

definition ensure_buffers :: "nat \<Rightarrow> nat \<Rightarrow> hook_state \<Rightarrow> hook_state" where
  "ensure_buffers channelCount bufferSize st =
     (if channelCount > 0 \<and> length (buffersRef st) \<noteq> channelCount
      then st\<lparr> buffersRef := replicate channelCount (replicate bufferSize 0),
               tsRef := replicate bufferSize 0,
               writeHeadRef := 0,
               sampleCountRef := 0,
               allocId := Suc (allocId st) \<rparr>
      else st)"

subsection \<open>Render scheduling\<close>

text \<open>Lines 240-249. The callback is \<^verbatim>\<open>raf_callback\<close>.\<close>

definition scheduleRender :: "hook_state \<Rightarrow> hook_state" where
  "scheduleRender st =
     (if dirtyRef st \<and> rafRef st = None
      then st\<lparr> rafRef := Some (nextHandle st),
               frameQueue := frameQueue st @ [nextHandle st],
               nextHandle := Suc (nextHandle st) \<rparr>
      else st)"

definition raf_callback :: "hook_state \<Rightarrow> hook_state" where
  "raf_callback st = st\<lparr> rafRef := None, dirtyRef := False, tick := tick st + 1 \<rparr>"

text \<open>
  A display refresh: the browser runs every callback that was pending when the
  refresh began, once each, and the queue is empty afterwards.
\<close>

definition animation_frame :: "hook_state \<Rightarrow> hook_state" where
  "animation_frame st =
     fold (\<lambda>h s. raf_callback s) (frameQueue st) (st\<lparr> frameQueue := [] \<rparr>)"

text \<open>Lines 319-325; \<^verbatim>\<open>close()\<close> belongs to the socket and is not part of this state.\<close>

definition disconnect :: "hook_state \<Rightarrow> hook_state" where
  "disconnect st =
     (case rafRef st of
        None \<Rightarrow> st
      | Some h \<Rightarrow> st\<lparr> frameQueue := removeAll h (frameQueue st), rafRef := None \<rparr>)"

subsection \<open>Marker log\<close>

fun join :: "string \<Rightarrow> string list \<Rightarrow> string" where
  "join sep [] = []"
| "join sep [x] = x"
| "join sep (x # y # ys) = x @ sep @ join sep (y # ys)"

text \<open>\<^verbatim>\<open>xs.slice(-n)\<close>: the last \<open>n\<close> elements, all of them when there are fewer.\<close>

definition slice_last :: "nat \<Rightarrow> 'a list \<Rightarrow> 'a list" where
  "slice_last n xs = drop (length xs - n) xs"

text \<open>The updater handed to \<^verbatim>\<open>setMarkers\<close> (lines 259-262).\<close>

definition append_marker :: "MarkerEntry \<Rightarrow> MarkerEntry list \<Rightarrow> MarkerEntry list" where
  "append_marker e prev =
     (let next = prev @ [e]
      in if length next > 500 then slice_last 500 next else next)"

text \<open>\<^verbatim>\<open>onMessage\<close> on a string stream (\<^verbatim>\<open>isStringStream\<close> is true).\<close>

definition onMessage_marker :: "string message \<Rightarrow> hook_state \<Rightarrow> hook_state" where
  "onMessage_marker msg st =
     (case msg of
        Junk \<Rightarrow> st
      | Sample None _ \<Rightarrow> st
      | Sample (Some t) None \<Rightarrow> st
      | Sample (Some t) (Some vals) \<Rightarrow>
          st\<lparr> markers :=
                 append_marker \<lparr> mtimestamp = t, mvalue = join '', '' vals \<rparr> (markers st) \<rparr>)"

subsection \<open>Numeric samples\<close>

text \<open>The channel loop of lines 270-272, from channel \<open>ch\<close> on.\<close>

function write_channels :: "real list \<Rightarrow> nat \<Rightarrow> nat \<Rightarrow> real list list \<Rightarrow> real list list" where
  "write_channels channels head ch bufs =
     (if ch < length channels \<and> ch < length bufs
      then write_channels channels head (Suc ch)
             (bufs[ch := (bufs ! ch)[head := channels ! ch]])
      else bufs)"
  by pat_completeness auto
termination
  by (relation "measure (\<lambda>(channels, head, ch, bufs). length bufs - ch)") auto

declare write_channels.simps [simp del]

text \<open>The eviction loop of lines 287-289: \<^verbatim>\<open>shift()\<close> while the front is older than the cutoff.\<close>

fun evict :: "real \<Rightarrow> real list \<Rightarrow> real list" where
  "evict cutoff [] = []"
| "evict cutoff (x # xs) = (if x < cutoff then evict cutoff xs else x # xs)"

text \<open>
  Lines 266-274: the write into the ring. \<open>now\<close> is the reading of
  \<^verbatim>\<open>performance.now() / 1000\<close> taken at line 277.
\<close>

definition write_ring :: "nat \<Rightarrow> real \<Rightarrow> real list \<Rightarrow> hook_state \<Rightarrow> hook_state" where
  "write_ring bufferSize t channels st =
     (let head = writeHeadRef st
      in st\<lparr> tsRef := (tsRef st)[head := t],
              buffersRef := write_channels channels head 0 (buffersRef st),
              writeHeadRef := (head + 1) mod bufferSize,
              sampleCountRef := min (sampleCountRef st + 1) bufferSize \<rparr>)"

text \<open>Lines 276-282.\<close>

definition update_stats :: "real \<Rightarrow> real \<Rightarrow> hook_state \<Rightarrow> hook_state" where
  "update_stats now t st =
     (let s1 = (statsRef st)\<lparr> totalSamples := totalSamples (statsRef st) + 1,
                              latestTimestamp := t \<rparr>;
          s2 = (if connectTimeRef st > 0
                then s1\<lparr> connectionUptime := now - connectTimeRef st \<rparr>
                else s1)
      in st\<lparr> statsRef := s2 \<rparr>)"

text \<open>Lines 284-290.\<close>

definition track_rate :: "real \<Rightarrow> hook_state \<Rightarrow> hook_state" where
  "track_rate now st =
     (let w = evict (now - 1) (rateWindowRef st @ [now])
      in st\<lparr> rateWindowRef := w,
              statsRef := (statsRef st)\<lparr> actualSampleRate := length w \<rparr> \<rparr>)"

text \<open>\<^verbatim>\<open>onMessage\<close> on a numeric stream (\<^verbatim>\<open>isStringStream\<close> is false).\<close>

definition onMessage_numeric ::
    "nat \<Rightarrow> real \<Rightarrow> real message \<Rightarrow> hook_state \<Rightarrow> hook_state" where
  "onMessage_numeric bufferSize now msg st =
     (case msg of
        Junk \<Rightarrow> st
      | Sample None _ \<Rightarrow> st
      | Sample (Some t) None \<Rightarrow> st
      | Sample (Some t) (Some channels) \<Rightarrow>
          scheduleRender
            ((track_rate now (update_stats now t (write_ring bufferSize t channels st)))
               \<lparr> dirtyRef := True \<rparr>))"

subsection \<open>Connect time\<close>

text \<open>Lines 311-317, run in the body of the hook at every render.\<close>

definition track_connect_time :: "WsState \<Rightarrow> real \<Rightarrow> hook_state \<Rightarrow> hook_state" where
  "track_connect_time wsState now st =
     (let st1 = (if wsState = Open \<and> connectTimeRef st = 0
                 then st\<lparr> connectTimeRef := now \<rparr> else st)
      in if wsState = Closed then st1\<lparr> connectTimeRef := 0 \<rparr> else st1)"

text \<open>One run of the body of the hook.\<close>

definition render_hook :: "nat \<Rightarrow> nat \<Rightarrow> WsState \<Rightarrow> real \<Rightarrow> hook_state \<Rightarrow> hook_state" where
  "render_hook channelCount bufferSize wsState now st =
     track_connect_time wsState now (ensure_buffers channelCount bufferSize st)"

subsection \<open>Events\<close>

text \<open>
  Everything happens on one thread, one event after the other: a render of the hook,
  a message on a numeric or on a string stream, a display refresh, a disconnect.
\<close>

datatype event =
    Render nat nat WsState real
  | NumericMessage nat real "real message"
  | MarkerMessage "string message"
  | Refresh
  | Disconnect

fun step :: "event \<Rightarrow> hook_state \<Rightarrow> hook_state" where
  "step (Render channelCount bufferSize wsState now) st =
     render_hook channelCount bufferSize wsState now st"
| "step (NumericMessage bufferSize now msg) st = onMessage_numeric bufferSize now msg st"
| "step (MarkerMessage msg) st = onMessage_marker msg st"
| "step Refresh st = animation_frame st"
| "step Disconnect st = disconnect st"

definition run :: "event list \<Rightarrow> hook_state \<Rightarrow> hook_state" where
  "run evs st = fold step evs st"

text \<open>An accepted numeric sample: timestamp and payload are both there.\<close>

definition accepted :: "real \<Rightarrow> real list \<Rightarrow> real message" where
  "accepted t channels = Sample (Some t) (Some channels)"

section \<open>The chart: label fitting and window geometry\<close>

text \<open>
  The definitions of this section embed \<^verbatim>\<open>src/components/TimeSeriesChart.tsx\<close>.
  \<^verbatim>\<open>ctx.measureText(s).width\<close> is the parameter \<open>measureText\<close> of type
  \<^typ>\<open>string \<Rightarrow> real\<close>; a \<^typ>\<open>string\<close> is the sequence of UTF-16 code units that
  \<^verbatim>\<open>text.length\<close> counts and \<^verbatim>\<open>text.slice\<close> cuts.
\<close>

subsection \<open>Fitting a label\<close>

definition ellipsis :: string where
  "ellipsis = ''...''"

text \<open>The loop of lines 13-18; \<^verbatim>\<open>mid\<close> is \<^verbatim>\<open>Math.ceil((lo + hi) / 2)\<close>.\<close>

function fit_search :: "(string \<Rightarrow> real) \<Rightarrow> string \<Rightarrow> real \<Rightarrow> nat \<Rightarrow> nat \<Rightarrow> nat" where
  "fit_search measureText text maxWidth lo hi =
     (if lo < hi
      then (let mid = nat \<lceil>(real lo + real hi) / 2\<rceil>
            in if measureText (take mid text @ ellipsis) \<le> maxWidth
               then fit_search measureText text maxWidth mid hi
               else fit_search measureText text maxWidth lo (mid - 1))
      else lo)"
  by pat_completeness auto
termination
proof (relation "measure (\<lambda>(m, text, maxWidth, lo, hi). hi - lo)")
  show "wf (measure (\<lambda>(m, text, maxWidth, lo, hi). hi - lo))"
    by simp
next
  fix m :: "string \<Rightarrow> real" and s :: string and maxWidth :: real
    and lo hi mid :: nat
  assume "lo < hi" and mid: "mid = nat \<lceil>(real lo + real hi) / 2\<rceil>"
  have "(real lo + real hi) / 2 = real_of_int (int lo + int hi) / real_of_int 2"
    by simp
  then have "\<lceil>(real lo + real hi) / 2\<rceil> = - (- (int lo + int hi) div 2)"
    by (simp only: ceiling_divide_eq_div)
  then have "mid = (lo + hi + 1) div 2"
    unfolding mid by linarith
  with \<open>lo < hi\<close> have "lo < mid" "mid \<le> hi" by linarith+
  then show "((m, s, maxWidth, mid, hi), (m, s, maxWidth, lo, hi))
      \<in> measure (\<lambda>(m, text, maxWidth, lo, hi). hi - lo)"
    by simp
  from \<open>lo < mid\<close> \<open>mid \<le> hi\<close>
  show "((m, s, maxWidth, lo, mid - 1), (m, s, maxWidth, lo, hi))
      \<in> measure (\<lambda>(m, text, maxWidth, lo, hi). hi - lo)"
    by simp
qed

declare fit_search.simps [simp del]

definition fitTextToWidth :: "(string \<Rightarrow> real) \<Rightarrow> string \<Rightarrow> real \<Rightarrow> string" where
  "fitTextToWidth measureText text maxWidth =
     (if maxWidth \<le> 0 then []
      else if measureText text \<le> maxWidth then text
      else if measureText ellipsis > maxWidth then []
      else take (fit_search measureText text maxWidth 0 (length text)) text @ ellipsis)"

subsection \<open>Snapshot, view and the hazards of a draw\<close>

text \<open>
  The props of the chart that \<^verbatim>\<open>draw\<close> reads, and the view state of the component.
  \<^verbatim>\<open>visibleChannels\<close> is a JavaScript \<^verbatim>\<open>Set\<close>, listed in insertion order.
\<close>

record chart_props =
  channelBuffers :: "real list list"
  timestamps :: "real list"
  sampleCount :: nat
  writeHead :: nat
  channelNames :: "string list"

record chart_view =
  windowSeconds :: real
  stacked :: bool
  visibleChannels :: "nat list"

text \<open>
  A division by zero and a read outside an array do not raise in JavaScript: they give
  \<^verbatim>\<open>Infinity\<close> or \<^verbatim>\<open>NaN\<close>, and \<^verbatim>\<open>undefined\<close>. The model makes them visible: the lane
  division and every read of a buffer cell return a \<open>hazard\<close> instead, and the draw stops
  there.
\<close>

datatype hazard = DivisionByZero | IndexOutOfRange

text \<open>The remainder \<^verbatim>\<open>a % b\<close> on integers: the sign of the dividend, \<^verbatim>\<open>NaN\<close> for \<open>b = 0\<close>.\<close>

definition js_rem :: "int \<Rightarrow> int \<Rightarrow> int option" where
  "js_rem a b = (if b = 0 then None else Some (sgn a * (\<bar>a\<bar> mod \<bar>b\<bar>)))"

definition read_cell :: "real list \<Rightarrow> int option \<Rightarrow> hazard + real" where
  "read_cell xs idx =
     (case idx of
        None \<Rightarrow> Inl IndexOutOfRange
      | Some k \<Rightarrow> if 0 \<le> k \<and> k < int (length xs) then Inr (xs ! nat k)
                  else Inl IndexOutOfRange)"

text \<open>\<^verbatim>\<open>(writeHead - sampleCount + i + bufLen) % bufLen\<close> with \<^verbatim>\<open>bufLen = timestamps.length\<close>.\<close>

definition ring_index :: "chart_props \<Rightarrow> nat \<Rightarrow> int option" where
  "ring_index p i =
     js_rem (int (writeHead p) - int (sampleCount p) + int i + int (length (timestamps p)))
            (int (length (timestamps p)))"

subsection \<open>Double arithmetic\<close>

text \<open>
  The auto-range of lines 172-176 and 240-243 is computed in IEEE 754 double precision.
  A JavaScript number is a finite value, an infinity or \<^verbatim>\<open>NaN\<close>; the two zeros are not
  told apart. \<open>fl64\<close> rounds a real to the nearest double, ties to the even mantissa:
  \<open>exponent\<close> is the binary exponent of a positive real, not below that of the
  subnormals, a double is a multiple of \<open>2\<close> to that exponent less 52, and a result of
  magnitude \<open>2 ^ 1024\<close> or more is an infinity. Each operation gives the rounded exact
  result.
\<close>

datatype js_number = Num real | PosInf | NegInf | NaN

text \<open>The number of binary digits of a positive integer.\<close>

function bits :: "int \<Rightarrow> int" where
  "bits n = (if n \<le> 0 then 0 else 1 + bits (n div 2))"
  by pat_completeness auto
termination
  by (relation "measure nat") auto

declare bits.simps [simp del]

text \<open>Two to an integer power.\<close>

definition pow2 :: "int \<Rightarrow> real" where
  "pow2 k = (if 0 \<le> k then 2 ^ nat k else 1 / 2 ^ nat (- k))"

definition exponent :: "real \<Rightarrow> int" where
  "exponent x =
     (if 1 \<le> x then bits \<lfloor>x\<rfloor> - 1 else - bits (\<lceil>1 / x\<rceil> - 1))"

definition round_half_even :: "real \<Rightarrow> int" where
  "round_half_even y =
     (let f = \<lfloor>y\<rfloor>; r = y - of_int f
      in if r < 1 / 2 then f
         else if 1 / 2 < r then f + 1
         else if even f then f else f + 1)"

definition fl64 :: "real \<Rightarrow> js_number" where
  "fl64 x =
     (if x = 0 then Num 0
      else (let e = max (exponent \<bar>x\<bar>) (- 1022);
                q = pow2 (e - 52);
                r = of_int (round_half_even (x / q)) * q
            in if pow2 1024 \<le> \<bar>r\<bar> then (if 0 < x then PosInf else NegInf)
               else Num r))"

fun js_neg :: "js_number \<Rightarrow> js_number" where
  "js_neg (Num a) = Num (- a)"
| "js_neg PosInf = NegInf"
| "js_neg NegInf = PosInf"
| "js_neg NaN = NaN"

fun js_add :: "js_number \<Rightarrow> js_number \<Rightarrow> js_number" where
  "js_add (Num a) (Num b) = fl64 (a + b)"
| "js_add NaN y = NaN"
| "js_add x NaN = NaN"
| "js_add PosInf NegInf = NaN"
| "js_add NegInf PosInf = NaN"
| "js_add PosInf y = PosInf"
| "js_add x PosInf = PosInf"
| "js_add NegInf y = NegInf"
| "js_add x NegInf = NegInf"

definition js_sub :: "js_number \<Rightarrow> js_number \<Rightarrow> js_number" where
  "js_sub x y = js_add x (js_neg y)"

fun js_mul :: "js_number \<Rightarrow> js_number \<Rightarrow> js_number" where
  "js_mul (Num a) (Num b) = fl64 (a * b)"
| "js_mul NaN y = NaN"
| "js_mul x NaN = NaN"
| "js_mul (Num a) y = (if a = 0 then NaN else if 0 < a then y else js_neg y)"
| "js_mul x (Num b) = (if b = 0 then NaN else if 0 < b then x else js_neg x)"
| "js_mul PosInf y = y"
| "js_mul NegInf y = js_neg y"

text \<open>The literals \<^verbatim>\<open>0.1\<close> and \<^verbatim>\<open>0.05\<close> are the doubles nearest to them.\<close>

definition double_0_1 :: real where
  "double_0_1 = 3602879701896397 / 36028797018963968"

definition double_0_05 :: real where
  "double_0_05 = 3602879701896397 / 72057594037927936"

subsection \<open>Auto-ranging\<close>

text \<open>
  The running minimum, maximum and count of a scan. \<^verbatim>\<open>None\<close> is the initial
  \<^verbatim>\<open>Infinity\<close> of the minimum and \<^verbatim>\<open>-Infinity\<close> of the maximum, which every sample
  value replaces.
\<close>

type_synonym extent = "real option \<times> real option \<times> nat"

fun widen :: "real \<Rightarrow> extent \<Rightarrow> extent" where
  "widen v (mn, mx, count) =
     ((case mn of None \<Rightarrow> Some v | Some a \<Rightarrow> if v < a then Some v else Some a),
      (case mx of None \<Rightarrow> Some v | Some b \<Rightarrow> if v > b then Some v else Some b),
      Suc count)"

text \<open>The scan of lines 162-169 (and 230-236), over the logical positions \<open>is\<close>.\<close>

primrec scan_window ::
    "chart_props \<Rightarrow> real list \<Rightarrow> real \<Rightarrow> nat list \<Rightarrow> extent \<Rightarrow> hazard + extent" where
  "scan_window p buf startTime [] acc = Inr acc"
| "scan_window p buf startTime (i # is) acc =
     (case read_cell (timestamps p) (ring_index p i) of
        Inl e \<Rightarrow> Inl e
      | Inr tstamp \<Rightarrow>
          if tstamp < startTime then scan_window p buf startTime is acc
          else (case read_cell buf (ring_index p i) of
                  Inl e \<Rightarrow> Inl e
                | Inr v \<Rightarrow> scan_window p buf startTime is (widen v acc)))"

text \<open>
  Lines 172-176 with \<open>pad = 0.1\<close>, lines 240-243 with \<open>pad = 0.05\<close>: the degenerate
  range is opened by one on each side, then the range is padded, every step in double
  arithmetic. The minimum and maximum that come in are finite sample values.
\<close>

definition pad_range :: "real \<Rightarrow> real \<Rightarrow> real \<Rightarrow> js_number \<times> js_number" where
  "pad_range pad lo hi =
     (let (mn, mx) = (if lo = hi then (js_sub (Num lo) (Num 1), js_add (Num hi) (Num 1))
                      else (Num lo, Num hi));
          range = js_sub mx mn;
          padding = js_mul range (Num pad)
      in (js_sub mn padding, js_add mx padding))"

text \<open>
  The vertical axis of one stacked lane (lines 157-176): \<^verbatim>\<open>None\<close> when the lane
  returns at line 171.
\<close>

definition lane_range ::
    "chart_props \<Rightarrow> real list \<Rightarrow> real \<Rightarrow> hazard + (js_number \<times> js_number) option" where
  "lane_range p buf startTime =
     (case scan_window p buf startTime [0..<sampleCount p] (None, None, 0) of
        Inl e \<Rightarrow> Inl e
      | Inr (mn, mx, count) \<Rightarrow>
          Inr (case (mn, mx) of
                 (Some lo, Some hi) \<Rightarrow>
                   if count = 0 then None else Some (pad_range double_0_1 lo hi)
               | _ \<Rightarrow> None))"

text \<open>The scan of overlay mode over all active channels (lines 228-237).\<close>

primrec scan_channels ::
    "chart_props \<Rightarrow> real \<Rightarrow> nat list \<Rightarrow> extent \<Rightarrow> hazard + extent" where
  "scan_channels p startTime [] acc = Inr acc"
| "scan_channels p startTime (chIdx # rest) acc =
     (case scan_window p (channelBuffers p ! chIdx) startTime [0..<sampleCount p] acc of
        Inl e \<Rightarrow> Inl e
      | Inr acc' \<Rightarrow> scan_channels p startTime rest acc')"

subsection \<open>Layout\<close>

text \<open>A channel index as JavaScript prints it.\<close>

definition digit_char :: "nat \<Rightarrow> char" where
  "digit_char d = char_of (48 + d)"

fun decimal :: "nat \<Rightarrow> string" where
  "decimal n = (if n < 10 then [digit_char n]
                else decimal (n div 10) @ [digit_char (n mod 10)])"

declare decimal.simps [simp del]

text \<open>
  Line 111. \<^verbatim>\<open>sort()\<close> without a comparator orders the elements by their string
  forms, code unit by code unit.
\<close>

definition active_channels :: "chart_view \<Rightarrow> nat \<Rightarrow> nat list" where
  "active_channels v numChannels =
     sort_key decimal (filter (\<lambda>i. i < numChannels) (visibleChannels v))"

text \<open>\<^verbatim>\<open>channelNames[chIdx] || `ch${chIdx}`\<close>.\<close>

definition label_of :: "string list \<Rightarrow> nat \<Rightarrow> string" where
  "label_of names chIdx =
     (if chIdx < length names \<and> names ! chIdx \<noteq> [] then names ! chIdx
      else ''ch'' @ decimal chIdx)"

text \<open>Lines 123-130.\<close>

definition left_gutter :: "(string \<Rightarrow> real) \<Rightarrow> string list \<Rightarrow> nat list \<Rightarrow> real" where
  "left_gutter measureText names active =
     (let maxLabelW = fold (\<lambda>chIdx m. max m (measureText (label_of names chIdx))) active 0
      in min 240 (max 90 (of_int \<lceil>maxLabelW + 18\<rceil>)))"

text \<open>Line 147: \<^verbatim>\<open>plotH / activeChannels.length\<close>.\<close>

definition lane_height :: "real \<Rightarrow> nat \<Rightarrow> hazard + real" where
  "lane_height plotH n = (if n = 0 then Inl DivisionByZero else Inr (plotH / real n))"

text \<open>
  What is painted for one lane: its place, and, unless the lane returns at line 171,
  its vertical axis and the fitted label. The path of the trace reads the same cells as
  the scan and is not part of the record.
\<close>

record lane =
  lane_channel :: nat
  laneTop :: real
  laneH :: real
  lane_axis :: "(js_number \<times> js_number) option"
  lane_label :: "string option"

text \<open>The \<^verbatim>\<open>forEach\<close> of lines 149-222, from lane \<open>laneIdx\<close> on.\<close>

primrec stacked_lanes ::
    "(string \<Rightarrow> real) \<Rightarrow> chart_props \<Rightarrow> real \<Rightarrow> real \<Rightarrow> real \<Rightarrow> nat list \<Rightarrow> nat
       \<Rightarrow> hazard + lane list" where
  "stacked_lanes measureText p startTime gutter h [] laneIdx = Inr []"
| "stacked_lanes measureText p startTime gutter h (chIdx # rest) laneIdx =
     (case lane_range p (channelBuffers p ! chIdx) startTime of
        Inl e \<Rightarrow> Inl e
      | Inr axis \<Rightarrow>
          (case stacked_lanes measureText p startTime gutter h rest (Suc laneIdx) of
             Inl e \<Rightarrow> Inl e
           | Inr ls \<Rightarrow>
               Inr (\<lparr> lane_channel = chIdx,
                      laneTop = 8 + real laneIdx * h,
                      laneH = h,
                      lane_axis = axis,
                      lane_label =
                        (case axis of
                           None \<Rightarrow> None
                         | Some r \<Rightarrow>
                             Some (fitTextToWidth measureText
                                     (label_of (channelNames p) chIdx) (gutter - 14))) \<rparr>
                    # ls)))"

subsection \<open>The draw\<close>

text \<open>
  What a draw leaves on the canvas, over the background: the placeholder of lines
  101-107, nothing (line 112), the lanes of stacked mode, or the shared axis of overlay
  mode (\<^verbatim>\<open>None\<close> when it returns at line 239). Canvas and context are taken to exist.
\<close>

datatype frame =
    WaitingForData
  | Blank
  | StackedLanes real "lane list"
  | OverlayAxis real "(js_number \<times> js_number) option"

definition draw ::
    "(string \<Rightarrow> real) \<Rightarrow> real \<Rightarrow> real \<Rightarrow> chart_props \<Rightarrow> chart_view \<Rightarrow> hazard + frame" where
  "draw measureText w h p v =
     (if sampleCount p = 0 \<or> channelBuffers p = [] then Inr WaitingForData
      else
        (let bufLen = length (timestamps p);
             numChannels = length (channelBuffers p);
             activeChannels = active_channels v numChannels
         in if activeChannels = [] then Inr Blank
            else
              (case read_cell (timestamps p)
                      (js_rem (int (writeHead p) - 1 + int bufLen) (int bufLen)) of
                 Inl e \<Rightarrow> Inl e
               | Inr latestTime \<Rightarrow>
                   (let startTime = latestTime - windowSeconds v;
                        gutter = left_gutter measureText (channelNames p) activeChannels;
                        plotH = h - 8 - 24
                    in if stacked v
                       then (case lane_height plotH (length activeChannels) of
                               Inl e \<Rightarrow> Inl e
                             | Inr lh \<Rightarrow>
                                 (case stacked_lanes measureText p startTime gutter lh
                                         activeChannels 0 of
                                    Inl e \<Rightarrow> Inl e
                                  | Inr ls \<Rightarrow> Inr (StackedLanes gutter ls)))
                       else (case scan_channels p startTime activeChannels (None, None, 0) of
                               Inl e \<Rightarrow> Inl e
                             | Inr (mn, mx, count) \<Rightarrow>
                                 Inr (OverlayAxis gutter
                                        (case (mn, mx) of
                                           (Some lo, Some hi) \<Rightarrow>
                                             Some (pad_range double_0_05 lo hi)
                                         | _ \<Rightarrow> None)))))))"

subsection \<open>From the hook to the chart\<close>

text \<open>The props the page hands to the chart are the current contents of the refs.\<close>

definition snapshot :: "string list \<Rightarrow> hook_state \<Rightarrow> chart_props" where
  "snapshot names st =
     \<lparr> channelBuffers = buffersRef st, timestamps = tsRef st,
       sampleCount = sampleCountRef st, writeHead = writeHeadRef st,
       channelNames = names \<rparr>"

subsection \<open>The redraw effect\<close>

text \<open>
  Lines 318-325 of the chart. \<^verbatim>\<open>draw\<close> is a \<^verbatim>\<open>useCallback\<close> over
  \<^verbatim>\<open>[channelBuffers, timestamps, sampleCount, writeHead, channelNames, windowSeconds,
  stacked, visibleChannels]\<close>, and the effect that calls it depends on
  \<^verbatim>\<open>[draw, sampleCount, writeHead]\<close>. React gives a new \<^verbatim>\<open>draw\<close>, and runs the effect
  after a render, when one of these differs from the render before; arrays and sets are
  compared by identity. \<open>draw_deps\<close> is what is compared: an identity is a number, the
  one of the two arrays is \<^verbatim>\<open>allocId\<close>.
\<close>

record draw_deps =
  dep_arrays :: nat
  dep_sampleCount :: nat
  dep_writeHead :: nat
  dep_channelNames :: nat
  dep_windowSeconds :: real
  dep_stacked :: bool
  dep_visibleChannels :: nat

text \<open>
  The state of one mounted chart: the pause flag (\<^verbatim>\<open>pausedRef.current\<close> is set to it at
  every render), the view, the identity of the \<^verbatim>\<open>visibleChannels\<close> set, the dependencies
  React remembers from the last run of the effect (\<^verbatim>\<open>None\<close> before the first render),
  and what the calls of \<^verbatim>\<open>draw\<close> have painted so far, the latest last.
\<close>

record chart_state =
  paused :: bool
  view :: chart_view
  visibleChannelsId :: nat
  effectDeps :: "draw_deps option"
  painted :: "(hazard + frame) list"

definition chart_deps :: "nat \<Rightarrow> hook_state \<Rightarrow> chart_state \<Rightarrow> draw_deps" where
  "chart_deps namesId st cs =
     \<lparr> dep_arrays = allocId st,
       dep_sampleCount = sampleCountRef st,
       dep_writeHead = writeHeadRef st,
       dep_channelNames = namesId,
       dep_windowSeconds = windowSeconds (view cs),
       dep_stacked = stacked (view cs),
       dep_visibleChannels = visibleChannelsId cs \<rparr>"

text \<open>
  One render of the chart with the props the page takes from the hook, on a canvas of
  \<open>w\<close> by \<open>h\<close>: the effect runs when the dependencies have changed, and
  draws unless the chart is paused.
\<close>

definition render_chart ::
    "(string \<Rightarrow> real) \<Rightarrow> real \<Rightarrow> real \<Rightarrow> string list \<Rightarrow> nat \<Rightarrow> hook_state
       \<Rightarrow> chart_state \<Rightarrow> chart_state" where
  "render_chart measureText w h names namesId st cs =
     (let deps = chart_deps namesId st cs
      in if effectDeps cs = Some deps then cs
         else cs\<lparr> effectDeps := Some deps,
                 painted := (if paused cs then painted cs
                             else painted cs
                                  @ [draw measureText w h (snapshot names st) (view cs)]) \<rparr>)"

text \<open>
  A numeric write as an event: the clock reading at its arrival, the timestamp and
  the channel values of the sample.
\<close>

definition write_event :: "nat \<Rightarrow> real \<times> real \<times> real list \<Rightarrow> event" where
  "write_event bufferSize w =
     (case w of (now, t, channels) \<Rightarrow> NumericMessage bufferSize now (accepted t channels))"

text \<open>A marker as an event, and the entry it appends.\<close>

definition marker_event :: "real \<times> string list \<Rightarrow> event" where
  "marker_event m = (case m of (t, vals) \<Rightarrow> MarkerMessage (Sample (Some t) (Some vals)))"

definition marker_entry :: "real \<times> string list \<Rightarrow> MarkerEntry" where
  "marker_entry m = (case m of (t, vals) \<Rightarrow> \<lparr> mtimestamp = t, mvalue = join '', '' vals \<rparr>)"

section \<open>Invariants and sample traces\<close>

text \<open>
  What \<open>W\<close> accepted writes \<open>ws\<close> into a fresh ring of capacity \<open>C\<close> with \<open>n\<close>
  channels leave behind: the head and the count, the shape of the arrays, and for each
  of the last \<open>C\<close> writes its timestamp and the channel values it carried, at the
  position of its number modulo \<open>C\<close>.
\<close>

definition ring_inv ::
    "nat \<Rightarrow> nat \<Rightarrow> (real \<times> real \<times> real list) list \<Rightarrow> hook_state \<Rightarrow> bool" where
  "ring_inv C n ws st \<longleftrightarrow>
     writeHeadRef st = length ws mod C
   \<and> sampleCountRef st = min (length ws) C
   \<and> length (tsRef st) = C
   \<and> length (buffersRef st) = n
   \<and> (\<forall>ch < n. length (buffersRef st ! ch) = C)
   \<and> (\<forall>k < length ws. length ws - k \<le> C \<longrightarrow>
         tsRef st ! (k mod C) = fst (snd (ws ! k))
       \<and> (\<forall>ch < n. ch < length (snd (snd (ws ! k))) \<longrightarrow>
             buffersRef st ! ch ! (k mod C) = snd (snd (ws ! k)) ! ch))"

text \<open>Three writes of one channel, for a ring of capacity 2.\<close>

definition three_writes :: "(real \<times> real \<times> real list) list" where
  "three_writes = [(1, 10, [5]), (2, 11, [6]), (3, 12, [7])]"

text \<open>Ten writes arriving 50 ms apart, and five arriving over two seconds.\<close>

definition ten_writes :: "(real \<times> real \<times> real list) list" where
  "ten_writes =
     [(100 / 100, 0, [0]), (105 / 100, 0, [0]), (110 / 100, 0, [0]), (115 / 100, 0, [0]),
      (120 / 100, 0, [0]), (125 / 100, 0, [0]), (130 / 100, 0, [0]), (135 / 100, 0, [0]),
      (140 / 100, 0, [0]), (145 / 100, 0, [0])]"

definition slow_writes :: "(real \<times> real \<times> real list) list" where
  "slow_writes = [(1, 0, [0]), (15 / 10, 0, [0]), (2, 0, [0]), (24 / 10, 0, [0]), (3, 0, [0])]"

text \<open>
  The hook sees the connection open at clock reading 10, accepts one sample at 11 and
  sees the connection closed at 12.
\<close>

definition leave_open_trace :: "event list" where
  "leave_open_trace =
     [Render 1 4 Open 10, NumericMessage 4 11 (accepted 42 [7]), Render 1 4 Closed 12]"

text \<open>The hook sees the connection open at 10; the first sample arrives at 15.\<close>

definition late_first_sample_trace :: "event list" where
  "late_first_sample_trace = [Render 1 4 Open 10, NumericMessage 4 15 (accepted 42 [7])]"

text \<open>
  The scheduler's invariant: the ref holds a handle exactly when that handle is the one
  pending callback.
\<close>

definition sched_inv :: "hook_state \<Rightarrow> bool" where
  "sched_inv st \<longleftrightarrow>
     (case rafRef st of None \<Rightarrow> frameQueue st = [] | Some h \<Rightarrow> frameQueue st = [h])"

text \<open>A text measure under which every code unit is one unit wide.\<close>

definition unit_width :: "string \<Rightarrow> real" where
  "unit_width s = real (length s)"

text \<open>
  The prefix of length \<open>k\<close> fits when it is no wider than the budget with the ellipsis
  appended; the measured width is monotone when a longer prefix, with the ellipsis, is
  never narrower than a shorter one.
\<close>

definition fits :: "(string \<Rightarrow> real) \<Rightarrow> string \<Rightarrow> real \<Rightarrow> nat \<Rightarrow> bool" where
  "fits measureText s maxWidth k \<longleftrightarrow> measureText (take k s @ ellipsis) \<le> maxWidth"

definition width_mono :: "(string \<Rightarrow> real) \<Rightarrow> string \<Rightarrow> bool" where
  "width_mono measureText s \<longleftrightarrow>
     (\<forall>i j. i \<le> j \<and> j \<le> length s \<longrightarrow>
        measureText (take i s @ ellipsis) \<le> measureText (take j s @ ellipsis))"

text \<open>
  A ring of capacity 4 after three writes of one channel with the constant value 5, at
  timestamps 0, 1 and 2, and the view a chart starts with.
\<close>

definition constant_lane_props :: chart_props where
  "constant_lane_props =
     \<lparr> channelBuffers = [[5, 5, 5, 0]], timestamps = [0, 1, 2, 0],
       sampleCount = 3, writeHead = 3, channelNames = [''Fp1''] \<rparr>"

definition default_view :: chart_view where
  "default_view = \<lparr> windowSeconds = 5, stacked = True, visibleChannels = [0] \<rparr>"











section \<open>Marker log\<close>

lemma append_marker_last:
  "length prev \<le> 500 \<Longrightarrow> append_marker e prev = slice_last 500 (prev @ [e])"
  by (simp add: append_marker_def slice_last_def Let_def)

lemma slice_last_snoc:
  "slice_last n (slice_last n xs @ [e]) = slice_last n (xs @ [e])"
  by (cases "length xs \<le> n") (auto simp: slice_last_def Suc_diff_le)

lemma length_slice_last: "length (slice_last n xs) = min (length xs) n"
  by (simp add: slice_last_def)

lemma fold_append_marker:
  "fold append_marker es [] = slice_last 500 es"
proof (induction es rule: rev_induct)
  case Nil
  show ?case by (simp add: slice_last_def)
next
  case (snoc e es)
  have "length (slice_last 500 es) \<le> 500" by (simp add: length_slice_last)
  then show ?case
    using snoc by (simp add: append_marker_last slice_last_snoc)
qed

lemma run_Nil [simp]: "run [] st = st"
  by (simp add: run_def)

lemma run_Cons [simp]: "run (e # evs) st = run evs (step e st)"
  by (simp add: run_def)

lemma run_append [simp]: "run (xs @ ys) st = run ys (run xs st)"
  by (simp add: run_def)

lemma markers_run_marker_events:
  "markers (run (map marker_event es) st) = fold append_marker (map marker_entry es) (markers st)"
  by (induction es arbitrary: st)
     (simp_all add: marker_event_def marker_entry_def onMessage_marker_def split: prod.splits)

text \<open>
  Claim C8. Appending \<open>K\<close> marker entries one at a time to the empty log of a freshly
  mounted hook leaves exactly the last \<open>min K 500\<close> entries, in their original order.
\<close>

theorem marker_log_keeps_last_500:
  "markers (run (map marker_event es) initial_hook) = drop (length es - 500) (map marker_entry es)
   \<and> length (markers (run (map marker_event es) initial_hook)) = min (length es) 500"
proof -
  have "markers (run (map marker_event es) initial_hook) = slice_last 500 (map marker_entry es)"
    by (simp add: markers_run_marker_events initial_hook_def fold_append_marker)
  then show ?thesis by (simp add: slice_last_def)
qed

text \<open>Six hundred markers, numbered from 0: the log holds numbers 100 to 599.\<close>

theorem marker_log_600:
  "markers (run (map marker_event (map (\<lambda>k. (real k, [''m''])) [0..<600])) initial_hook)
     = map (\<lambda>k. \<lparr> mtimestamp = real k, mvalue = ''m'' \<rparr>) [100..<600]"
  using marker_log_keeps_last_500 [of "map (\<lambda>k. (real k, [''m''])) [0..<600]"]
  by (simp add: drop_map marker_entry_def comp_def)

section \<open>Ring buffer\<close>

lemma length_write_channels [simp]:
  "length (write_channels cs h ch bufs) = length bufs"
  by (induction cs h ch bufs rule: write_channels.induct)
     (subst write_channels.simps, simp)

lemma nth_write_channels:
  "k < length bufs \<Longrightarrow>
   write_channels cs h ch bufs ! k =
     (if ch \<le> k \<and> k < length cs then (bufs ! k)[h := cs ! k] else bufs ! k)"
proof (induction cs h ch bufs rule: write_channels.induct)
  case (1 cs h ch bufs)
  show ?case
  proof (cases "ch < length cs \<and> ch < length bufs")
    case True
    then have "write_channels cs h ch bufs ! k =
        write_channels cs h (Suc ch) (bufs[ch := (bufs ! ch)[h := cs ! ch]]) ! k"
      by (subst write_channels.simps) simp
    also have "\<dots> = (if Suc ch \<le> k \<and> k < length cs
        then (bufs[ch := (bufs ! ch)[h := cs ! ch]] ! k)[h := cs ! k]
        else bufs[ch := (bufs ! ch)[h := cs ! ch]] ! k)"
      using "1.IH" [OF True] "1.prems" by simp
    also have "\<dots> = (if ch \<le> k \<and> k < length cs then (bufs ! k)[h := cs ! k] else bufs ! k)"
      using True "1.prems" by (cases "k = ch") (auto simp: nth_list_update)
    finally show ?thesis .
  next
    case False
    then have "write_channels cs h ch bufs = bufs"
      by (subst write_channels.simps) auto
    with False "1.prems" show ?thesis by auto
  qed
qed

lemma scheduleRender_keeps [simp]:
  "buffersRef (scheduleRender st) = buffersRef st"
  "tsRef (scheduleRender st) = tsRef st"
  "writeHeadRef (scheduleRender st) = writeHeadRef st"
  "sampleCountRef (scheduleRender st) = sampleCountRef st"
  "statsRef (scheduleRender st) = statsRef st"
  "connectTimeRef (scheduleRender st) = connectTimeRef st"
  "rateWindowRef (scheduleRender st) = rateWindowRef st"
  "markers (scheduleRender st) = markers st"
  "tick (scheduleRender st) = tick st"
  "dirtyRef (scheduleRender st) = dirtyRef st"
  by (simp_all add: scheduleRender_def)

lemma onMessage_numeric_accepted:
  "onMessage_numeric C now (accepted t cs) st =
     scheduleRender ((track_rate now (update_stats now t (write_ring C t cs st)))
                       \<lparr> dirtyRef := True \<rparr>)"
  by (simp add: onMessage_numeric_def accepted_def)

lemma accepted_write_ring:
  "tsRef (onMessage_numeric C now (accepted t cs) st) = (tsRef st)[writeHeadRef st := t]"
  "buffersRef (onMessage_numeric C now (accepted t cs) st) =
     write_channels cs (writeHeadRef st) 0 (buffersRef st)"
  "writeHeadRef (onMessage_numeric C now (accepted t cs) st) = (writeHeadRef st + 1) mod C"
  "sampleCountRef (onMessage_numeric C now (accepted t cs) st) = min (sampleCountRef st + 1) C"
  by (simp_all add: onMessage_numeric_accepted track_rate_def update_stats_def write_ring_def Let_def)

text \<open>
  Claim C9. A write whose payload has \<open>L\<close> values stores the timestamp and the first
  \<open>min L channelCount\<close> channel values at the write head; the cells of the channels
  from \<open>L\<close> on at that index, and every cell at any other index, of every channel and
  of the timestamps, keep their contents; values beyond the channel count are dropped
  and the write always succeeds.
\<close>

theorem short_write_leaves_rest_stale:
  assumes "writeHeadRef st < length (tsRef st)"
    and "\<forall>ch < length (buffersRef st). writeHeadRef st < length (buffersRef st ! ch)"
  shows "let st' = onMessage_numeric C now (accepted t cs) st; head = writeHeadRef st in
      length (tsRef st') = length (tsRef st)
    \<and> length (buffersRef st') = length (buffersRef st)
    \<and> tsRef st' ! head = t
    \<and> (\<forall>i. i \<noteq> head \<longrightarrow> tsRef st' ! i = tsRef st ! i)
    \<and> (\<forall>ch < length (buffersRef st).
          length (buffersRef st' ! ch) = length (buffersRef st ! ch)
        \<and> (ch < length cs \<longrightarrow> buffersRef st' ! ch ! head = cs ! ch)
        \<and> (length cs \<le> ch \<longrightarrow> buffersRef st' ! ch = buffersRef st ! ch)
        \<and> (\<forall>i. i \<noteq> head \<longrightarrow> buffersRef st' ! ch ! i = buffersRef st ! ch ! i))"
  using assms by (auto simp: Let_def accepted_write_ring nth_write_channels)

text \<open>A short and a long write into a fresh buffer of three channels and capacity 2.\<close>

theorem short_write_witness:
  "buffersRef (onMessage_numeric 2 10 (accepted 1 [7, 8, 9, 4]) (ensure_buffers 3 2 initial_hook)) ! 0 ! 0 = 7
   \<and> tsRef (onMessage_numeric 2 10 (accepted 1 [7]) (ensure_buffers 3 2 initial_hook)) ! 0 = 1
   \<and> buffersRef (onMessage_numeric 2 10 (accepted 1 [7]) (ensure_buffers 3 2 initial_hook)) ! 0 ! 0 = 7
   \<and> buffersRef (onMessage_numeric 2 10 (accepted 1 [7]) (ensure_buffers 3 2 initial_hook)) ! 1
     = [0, 0]"
proof -
  let ?st = "ensure_buffers 3 2 initial_hook"
  have st: "buffersRef ?st = [[0, 0], [0, 0], [0, 0]]" "tsRef ?st = [0, 0]" "writeHeadRef ?st = 0"
    by (simp_all add: ensure_buffers_def initial_hook_def numeral_3_eq_3 numeral_2_eq_2)
  have h1: "writeHeadRef ?st < length (tsRef ?st)" by (simp add: st)
  have h2: "\<forall>ch < length (buffersRef ?st). writeHeadRef ?st < length (buffersRef ?st ! ch)"
    by (simp add: st less_Suc_eq)
  note short = short_write_leaves_rest_stale [OF h1 h2, of 2 10 1 "[7]", unfolded Let_def]
  note long = short_write_leaves_rest_stale [OF h1 h2, of 2 10 1 "[7, 8, 9, 4]", unfolded Let_def]
  from short long show ?thesis
    by (auto simp: st less_Suc_eq)
qed

lemma ring_inv_fresh:
  "0 < n \<Longrightarrow> ring_inv C n [] (ensure_buffers n C initial_hook)"
  by (simp add: ring_inv_def ensure_buffers_def initial_hook_def)

lemma mod_neq_recent:
  fixes k W C :: nat
  assumes "k < W" "W - k \<le> C - 1" "0 < C"
  shows "k mod C \<noteq> W mod C"
proof
  assume "k mod C = W mod C"
  then have "(W - k) mod C = 0"
    using assms(1) by (metis less_imp_le_nat mod_eq_dvd_iff_nat mod_0_imp_dvd dvd_imp_mod_0)
  moreover have "0 < W - k" "W - k < C" using assms by linarith+
  ultimately show False by simp
qed

lemma ring_inv_step:
  assumes inv: "ring_inv C n ws st" and C: "0 < C"
  shows "ring_inv C n (ws @ [(now, t, cs)]) (onMessage_numeric C now (accepted t cs) st)"
proof -
  let ?st' = "onMessage_numeric C now (accepted t cs) st"
  let ?W = "length ws"
  from inv have head: "writeHeadRef st = ?W mod C" and cnt: "sampleCountRef st = min ?W C"
    and lts: "length (tsRef st) = C" and lb: "length (buffersRef st) = n"
    and lch: "\<forall>ch < n. length (buffersRef st ! ch) = C"
    and cells: "\<forall>k < ?W. ?W - k \<le> C \<longrightarrow>
         tsRef st ! (k mod C) = fst (snd (ws ! k))
       \<and> (\<forall>ch < n. ch < length (snd (snd (ws ! k))) \<longrightarrow>
             buffersRef st ! ch ! (k mod C) = snd (snd (ws ! k)) ! ch)"
    by (simp_all add: ring_inv_def)
  have hlt: "?W mod C < C" using C by simp
  have 1: "writeHeadRef ?st' = length (ws @ [(now, t, cs)]) mod C"
    by (simp add: accepted_write_ring head mod_Suc_eq)
  have 2: "sampleCountRef ?st' = min (length (ws @ [(now, t, cs)])) C"
    by (simp add: accepted_write_ring cnt)
  have 3: "length (tsRef ?st') = C" by (simp add: accepted_write_ring lts)
  have 4: "length (buffersRef ?st') = n" by (simp add: accepted_write_ring lb)
  have 5: "\<forall>ch < n. length (buffersRef ?st' ! ch) = C"
    using lch lb by (simp add: accepted_write_ring nth_write_channels)
  have 6: "tsRef ?st' ! (k mod C) = fst (snd ((ws @ [(now, t, cs)]) ! k))
       \<and> (\<forall>ch < n. ch < length (snd (snd ((ws @ [(now, t, cs)]) ! k))) \<longrightarrow>
             buffersRef ?st' ! ch ! (k mod C) = snd (snd ((ws @ [(now, t, cs)]) ! k)) ! ch)"
    if k: "k < Suc ?W" and recent: "Suc ?W - k \<le> C" for k
  proof (cases "k = ?W")
    case True
    then show ?thesis
      using hlt lts lb lch by (simp add: accepted_write_ring head nth_write_channels)
  next
    case False
    with k have kW: "k < ?W" by simp
    have ne: "k mod C \<noteq> ?W mod C"
      using kW recent C by (intro mod_neq_recent) linarith+
    from cells kW recent have old: "tsRef st ! (k mod C) = fst (snd (ws ! k))"
      "\<forall>ch < n. ch < length (snd (snd (ws ! k))) \<longrightarrow>
             buffersRef st ! ch ! (k mod C) = snd (snd (ws ! k)) ! ch"
      by simp_all
    show ?thesis
      using kW ne old lb by (simp add: accepted_write_ring head nth_write_channels nth_append)
  qed
  have 7: "\<forall>k < length (ws @ [(now, t, cs)]). length (ws @ [(now, t, cs)]) - k \<le> C \<longrightarrow>
         tsRef ?st' ! (k mod C) = fst (snd ((ws @ [(now, t, cs)]) ! k))
       \<and> (\<forall>ch < n. ch < length (snd (snd ((ws @ [(now, t, cs)]) ! k))) \<longrightarrow>
             buffersRef ?st' ! ch ! (k mod C) = snd (snd ((ws @ [(now, t, cs)]) ! k)) ! ch)"
    using 6 by simp
  show ?thesis
    unfolding ring_inv_def using 1 2 3 4 5 7 by blast
qed

lemma ring_inv_run:
  assumes "0 < C" "0 < n"
  shows "ring_inv C n ws (run (map (write_event C) ws) (ensure_buffers n C initial_hook))"
proof (induction ws rule: rev_induct)
  case Nil
  show ?case using assms by (simp add: ring_inv_fresh)
next
  case (snoc w ws)
  obtain now t cs where w: "w = (now, t, cs)" by (cases w) auto
  show ?case
    using ring_inv_step [OF snoc assms(1), of now t cs]
    by (simp add: w write_event_def)
qed

lemma ring_position:
  fixes W C i :: nat
  assumes "0 < C" "i < min W C"
  shows "nat ((int (W mod C) - int (min W C) + int i) mod int C) = (W - min W C + i) mod C"
proof -
  have "int (W mod C) - int (min W C) + int i = int W mod int C - int (min W C) + int i"
    by (simp add: zmod_int)
  also have "\<dots> mod int C = (int W - int (min W C) + int i) mod int C"
    by (metis mod_add_left_eq mod_diff_left_eq)
  also have "int W - int (min W C) + int i = int (W - min W C + i)"
    by simp
  finally show ?thesis
    by (simp add: zmod_int [symmetric] del: of_nat_add of_nat_diff of_nat_min)
qed

text \<open>
  Claim C1. For every capacity \<open>C > 0\<close> and every sequence of \<open>W\<close> numeric writes into
  a freshly allocated buffer, \<open>sampleCount = min W C\<close>, \<open>writeHead = W mod C\<close>, and for
  every \<open>i < sampleCount\<close> the cell at index \<open>(writeHead - sampleCount + i) mod C\<close>
  holds the timestamp and the channel values of write number \<open>W - sampleCount + i\<close>
  (counted from 0): the valid samples are the most recent writes, oldest first.
\<close>

theorem ring_holds_most_recent_writes:
  assumes "0 < C" and "0 < n"
  shows "let st = run (map (write_event C) ws) (ensure_buffers n C initial_hook) in
      sampleCountRef st = min (length ws) C
    \<and> writeHeadRef st = length ws mod C
    \<and> (\<forall>i < sampleCountRef st.
          let idx = nat ((int (writeHeadRef st) - int (sampleCountRef st) + int i) mod int C);
              w = ws ! (length ws - sampleCountRef st + i)
          in idx < C
           \<and> tsRef st ! idx = fst (snd w)
           \<and> (\<forall>ch < n. ch < length (snd (snd w)) \<longrightarrow>
                 buffersRef st ! ch ! idx = snd (snd w) ! ch))"
proof -
  let ?st = "run (map (write_event C) ws) (ensure_buffers n C initial_hook)"
  let ?W = "length ws"
  have inv: "ring_inv C n ws ?st" using assms by (rule ring_inv_run)
  then have head: "writeHeadRef ?st = ?W mod C" and cnt: "sampleCountRef ?st = min ?W C"
    by (simp_all add: ring_inv_def)
  have cell: "(let idx = nat ((int (writeHeadRef ?st) - int (sampleCountRef ?st) + int i) mod int C);
              w = ws ! (?W - sampleCountRef ?st + i)
          in idx < C
           \<and> tsRef ?st ! idx = fst (snd w)
           \<and> (\<forall>ch < n. ch < length (snd (snd w)) \<longrightarrow>
                 buffersRef ?st ! ch ! idx = snd (snd w) ! ch))"
    if i: "i < sampleCountRef ?st" for i
  proof -
    let ?k = "?W - min ?W C + i"
    from i cnt have i': "i < min ?W C" by simp
    have idx: "nat ((int (writeHeadRef ?st) - int (sampleCountRef ?st) + int i) mod int C)
        = ?k mod C"
      unfolding head cnt using assms(1) i' by (rule ring_position)
    have k: "?k < ?W" "?W - ?k \<le> C" using i' by linarith+
    from inv k have "tsRef ?st ! (?k mod C) = fst (snd (ws ! ?k))
       \<and> (\<forall>ch < n. ch < length (snd (snd (ws ! ?k))) \<longrightarrow>
             buffersRef ?st ! ch ! (?k mod C) = snd (snd (ws ! ?k)) ! ch)"
      unfolding ring_inv_def by blast
    then show ?thesis
      unfolding Let_def idx using assms(1) cnt by simp
  qed
  show ?thesis
    unfolding Let_def using head cnt cell [unfolded Let_def] by blast
qed

text \<open>Three writes into a ring of capacity 2: the last two remain, oldest first.\<close>

theorem ring_witness:
  "sampleCountRef (run (map (write_event 2) three_writes) (ensure_buffers 1 2 initial_hook)) = 2
 \<and> writeHeadRef (run (map (write_event 2) three_writes) (ensure_buffers 1 2 initial_hook)) = 1
 \<and> tsRef (run (map (write_event 2) three_writes) (ensure_buffers 1 2 initial_hook)) ! 1 = 11
 \<and> tsRef (run (map (write_event 2) three_writes) (ensure_buffers 1 2 initial_hook)) ! 0 = 12
 \<and> buffersRef (run (map (write_event 2) three_writes) (ensure_buffers 1 2 initial_hook)) ! 0 ! 1 = 6
 \<and> buffersRef (run (map (write_event 2) three_writes) (ensure_buffers 1 2 initial_hook)) ! 0 ! 0 = 7"
proof -
  let ?st = "run (map (write_event 2) three_writes) (ensure_buffers 1 2 initial_hook)"
  have pos: "(0::nat) < 2" "(0::nat) < 1" by simp_all
  note inst = ring_holds_most_recent_writes [OF pos, of three_writes, unfolded Let_def]
  have len: "length three_writes = 3" by (simp add: three_writes_def)
  from inst have cnt: "sampleCountRef ?st = 2" and head: "writeHeadRef ?st = 1"
    by (simp_all add: len)
  have nth: "three_writes ! Suc 0 = (2, 11, [6])" "three_writes ! 2 = (3, 12, [7])"
    by (simp_all add: three_writes_def)
  note cell = inst [THEN conjunct2, THEN conjunct2, rule_format]
  have "tsRef ?st ! Suc 0 = 11" "buffersRef ?st ! 0 ! Suc 0 = 6"
    using cell [of 0] by (simp_all add: cnt head len nth del: One_nat_def)
  moreover have "tsRef ?st ! 0 = 12" "buffersRef ?st ! 0 ! 0 = 7"
    using cell [of 1] by (simp_all add: cnt head len nth del: One_nat_def)
  ultimately show ?thesis using cnt head by (simp del: One_nat_def add: One_nat_def [symmetric])
qed

section \<open>Rate tracker\<close>

lemma evict_dropWhile: "evict c xs = dropWhile (\<lambda>x. x < c) xs"
  by (induction xs) simp_all

lemma dropWhile_sorted_filter:
  fixes c :: real
  shows "sorted xs \<Longrightarrow> dropWhile (\<lambda>x. x < c) xs = filter (\<lambda>x. c \<le> x) xs"
proof (induction xs)
  case Nil
  show ?case by simp
next
  case (Cons x xs)
  show ?case
  proof (cases "x < c")
    case True
    with Cons show ?thesis by simp
  next
    case False
    with Cons.prems have "\<forall>y \<in> set xs. c \<le> y" by auto
    then have "filter (\<lambda>x. c \<le> x) xs = xs" by (simp add: filter_id_conv)
    with False show ?thesis by simp
  qed
qed

lemma accepted_rate:
  "rateWindowRef (onMessage_numeric C now (accepted t cs) st) =
     evict (now - 1) (rateWindowRef st @ [now])"
  "actualSampleRate (statsRef (onMessage_numeric C now (accepted t cs) st)) =
     length (evict (now - 1) (rateWindowRef st @ [now]))"
  by (simp_all add: onMessage_numeric_accepted track_rate_def update_stats_def write_ring_def
        Let_def)

lemma rate_window_step:
  fixes now :: real
  assumes "sorted (as @ [now])" and "rw = filter (\<lambda>a. c \<le> a) as" and "c \<le> now - 1"
  shows "evict (now - 1) (rw @ [now]) = filter (\<lambda>a. now - 1 \<le> a) (as @ [now])"
proof -
  from assms(1) have sas: "sorted as" and le: "\<forall>a \<in> set as. a \<le> now"
    by (simp_all add: sorted_append)
  have "sorted (rw @ [now])"
    unfolding assms(2) using sas le by (simp add: sorted_append sorted_wrt_filter)
  then have "evict (now - 1) (rw @ [now]) = filter (\<lambda>a. now - 1 \<le> a) (rw @ [now])"
    by (simp only: evict_dropWhile dropWhile_sorted_filter)
  moreover have "filter (\<lambda>a. now - 1 \<le> a) rw = filter (\<lambda>a. now - 1 \<le> a) as"
    unfolding assms(2) filter_filter using assms(3) by (intro filter_cong) auto
  ultimately show ?thesis by simp
qed

lemma rate_window_run:
  assumes "sorted (map fst ws)" and "rateWindowRef st0 = []"
  shows "rateWindowRef (run (map (write_event C) ws) st0) =
     (if ws = [] then [] else filter (\<lambda>a. fst (last ws) - 1 \<le> a) (map fst ws))"
  using assms(1)
proof (induction ws rule: rev_induct)
  case Nil
  show ?case using assms(2) by simp
next
  case (snoc w ws)
  obtain now t cs where w: "w = (now, t, cs)" by (cases w) auto
  let ?as = "map fst ws"
  let ?c = "if ws = [] then now - 1 else fst (last ws) - 1"
  from snoc.prems have sorted: "sorted (?as @ [now])" by (simp add: w)
  then have "sorted ?as" by (simp add: sorted_append)
  with snoc.IH have rw: "rateWindowRef (run (map (write_event C) ws) st0) =
      filter (\<lambda>a. ?c \<le> a) ?as"
    by simp
  have c: "?c \<le> now - 1"
    using sorted by (cases ws rule: rev_cases) (simp_all add: sorted_append)
  have ev: "write_event C (now, t, cs) = NumericMessage C now (accepted t cs)"
    by (simp add: write_event_def)
  show ?case
    using rate_window_step [OF sorted rw c]
    by (simp add: ev w accepted_rate)
qed

text \<open>
  Claim C7. With a clock that never runs backwards, after each accepted write
  \<open>actualSampleRate\<close> is the number of accepted writes whose arrival times lie in the
  second that ends at the arrival of the current write: a count, not an average.
\<close>

theorem rate_counts_trailing_second:
  assumes "sorted (map fst ws)" and "rateWindowRef st0 = []" and "ws \<noteq> []"
  shows "actualSampleRate (statsRef (run (map (write_event C) ws) st0)) =
     length (filter (\<lambda>a. fst (last ws) - 1 \<le> a \<and> a \<le> fst (last ws)) (map fst ws))"
proof -
  obtain ws' w where ws: "ws = ws' @ [w]"
    using assms(3) by (cases ws rule: rev_cases) auto
  obtain now t cs where w: "w = (now, t, cs)" by (cases w) auto
  have "rateWindowRef (run (map (write_event C) ws) st0)
      = filter (\<lambda>a. fst (last ws) - 1 \<le> a) (map fst ws)"
    using rate_window_run [OF assms(1,2)] assms(3) by simp
  moreover have "actualSampleRate (statsRef (run (map (write_event C) ws) st0))
      = length (rateWindowRef (run (map (write_event C) ws) st0))"
    by (simp add: ws w write_event_def accepted_rate)
  moreover have "\<forall>a \<in> set (map fst ws). a \<le> fst (last ws)"
    using assms(1) by (simp add: ws sorted_append)
  then have "filter (\<lambda>a. fst (last ws) - 1 \<le> a \<and> a \<le> fst (last ws)) (map fst ws)
      = filter (\<lambda>a. fst (last ws) - 1 \<le> a) (map fst ws)"
    by (intro filter_cong) auto
  ultimately show ?thesis by simp
qed

text \<open>
  Ten writes 50 ms apart give the rate 10; of five writes over two seconds, three are
  within the last second.
\<close>

theorem rate_ten_writes:
  "actualSampleRate (statsRef (run (map (write_event 2048) ten_writes)
      (ensure_buffers 1 2048 initial_hook))) = 10
 \<and> actualSampleRate (statsRef (run (map (write_event 2048) slow_writes)
      (ensure_buffers 1 2048 initial_hook))) = 3"
proof -
  have e: "rateWindowRef (ensure_buffers 1 2048 initial_hook) = []"
    by (simp add: ensure_buffers_def initial_hook_def)
  have s: "sorted (map fst ten_writes)" by (simp add: ten_writes_def)
  have n: "ten_writes \<noteq> []" by (simp add: ten_writes_def)
  have s': "sorted (map fst slow_writes)" by (simp add: slow_writes_def)
  have n': "slow_writes \<noteq> []" by (simp add: slow_writes_def)
  have "actualSampleRate (statsRef (run (map (write_event 2048) ten_writes)
      (ensure_buffers 1 2048 initial_hook))) = 10"
    unfolding rate_counts_trailing_second [OF s e n]
    by (simp add: ten_writes_def)
  moreover have "actualSampleRate (statsRef (run (map (write_event 2048) slow_writes)
      (ensure_buffers 1 2048 initial_hook))) = 3"
    unfolding rate_counts_trailing_second [OF s' e n']
    by (simp add: slow_writes_def)
  ultimately show ?thesis by simp
qed

section \<open>Statistics and connection state\<close>

lemma accepted_stats:
  "totalSamples (statsRef (onMessage_numeric C now (accepted t cs) st)) =
     totalSamples (statsRef st) + 1"
  "latestTimestamp (statsRef (onMessage_numeric C now (accepted t cs) st)) = t"
  "connectionUptime (statsRef (onMessage_numeric C now (accepted t cs) st)) =
     (if connectTimeRef st > 0 then now - connectTimeRef st
      else connectionUptime (statsRef st))"
  "connectTimeRef (onMessage_numeric C now (accepted t cs) st) = connectTimeRef st"
  by (simp_all add: onMessage_numeric_accepted track_rate_def update_stats_def write_ring_def
        Let_def)

lemma render_hook_stats:
  "statsRef (render_hook n C ws now st) = statsRef st"
  "rateWindowRef (render_hook n C ws now st) = rateWindowRef st"
  by (simp_all add: render_hook_def track_connect_time_def ensure_buffers_def Let_def)

lemma render_hook_connect_time:
  "connectTimeRef (render_hook n C ws now st) =
     (if ws = Closed then 0
      else if ws = Open \<and> connectTimeRef st = 0 then now
      else connectTimeRef st)"
  by (simp add: render_hook_def track_connect_time_def ensure_buffers_def Let_def)

text \<open>
  Claim C3, as amended. When the hook renders with a connection state other than open,
  the statistics (\<open>actualSampleRate\<close>, \<open>totalSamples\<close>, \<open>latestTimestamp\<close>,
  \<open>connectionUptime\<close>) and the rate window keep their values; the recorded connect
  time is cleared to 0 in the closed state and kept in the states connecting and error.
\<close>

theorem statistics_survive_leaving_open:
  assumes "wsState \<noteq> Open"
  shows "statsRef (render_hook n C wsState now st) = statsRef st
       \<and> rateWindowRef (render_hook n C wsState now st) = rateWindowRef st
       \<and> connectTimeRef (render_hook n C wsState now st) =
           (if wsState = Closed then 0 else connectTimeRef st)"
  using assms by (simp add: render_hook_stats render_hook_connect_time)

text \<open>
  Claim C3 as stated fails: after one accepted sample and the transition from open to
  closed, the statistics are those of the sample, not zero.
\<close>

theorem statistics_not_reset_on_close:
  "totalSamples (statsRef (run leave_open_trace initial_hook)) \<noteq> 0
 \<and> totalSamples (statsRef (run leave_open_trace initial_hook)) = 1
 \<and> latestTimestamp (statsRef (run leave_open_trace initial_hook)) = 42
 \<and> actualSampleRate (statsRef (run leave_open_trace initial_hook)) = 1
 \<and> connectionUptime (statsRef (run leave_open_trace initial_hook)) = 1"
  by (simp add: leave_open_trace_def render_hook_stats render_hook_connect_time accepted_stats
        initial_hook_def onMessage_numeric_accepted track_rate_def update_stats_def write_ring_def Let_def)

text \<open>The same trace, through the amended claim.\<close>

theorem statistics_survive_witness:
  "Closed \<noteq> Open
 \<and> statsRef (render_hook 1 4 Closed 12
       (run [Render 1 4 Open 10, NumericMessage 4 11 (accepted 42 [7])] initial_hook))
     = \<lparr> actualSampleRate = 1, totalSamples = 1, latestTimestamp = 42, connectionUptime = 1 \<rparr>
 \<and> connectTimeRef (render_hook 1 4 Closed 12
       (run [Render 1 4 Open 10, NumericMessage 4 11 (accepted 42 [7])] initial_hook)) = 0"
proof -
  have ne: "Closed \<noteq> Open" by simp
  show ?thesis
    using statistics_survive_leaving_open [OF ne, of 1 4 12
        "run [Render 1 4 Open 10, NumericMessage 4 11 (accepted 42 [7])] initial_hook"]
    by (simp add: render_hook_connect_time initial_hook_def
        onMessage_numeric_accepted track_rate_def update_stats_def write_ring_def Let_def
        render_hook_def track_connect_time_def ensure_buffers_def)
qed

text \<open>
  Claim C4, as amended. On every accepted write, \<open>connectionUptime\<close> becomes the
  current clock reading minus the recorded connect time when that is positive, and is
  left as it was otherwise; the write does not change the connect time, which is the
  clock reading at the render that first saw the connection open since it was last
  cleared.
\<close>

theorem uptime_since_observed_open:
  "connectionUptime (statsRef (onMessage_numeric C now (accepted t cs) st)) =
     (if connectTimeRef st > 0 then now - connectTimeRef st
      else connectionUptime (statsRef st))
 \<and> connectTimeRef (onMessage_numeric C now (accepted t cs) st) = connectTimeRef st
 \<and> connectTimeRef (render_hook n C' Open now' st) =
     (if connectTimeRef st = 0 then now' else connectTimeRef st)"
  by (simp add: accepted_stats render_hook_connect_time)

text \<open>
  Claim C4 as stated fails: the connection is seen open at 10 and the first sample is
  accepted at 15; the uptime reported at that write is 5, not 0.
\<close>

theorem uptime_not_since_first_sample:
  "connectionUptime (statsRef (run late_first_sample_trace initial_hook)) = 15 - 10
 \<and> connectionUptime (statsRef (run late_first_sample_trace initial_hook)) \<noteq> 15 - 15"
  by (simp add: late_first_sample_trace_def accepted_stats render_hook_connect_time
        render_hook_stats initial_hook_def)

text \<open>A write after the open state was seen, and a write before.\<close>

theorem uptime_witness:
  "connectionUptime (statsRef (onMessage_numeric 4 15 (accepted 42 [7])
      (render_hook 1 4 Open 10 initial_hook))) = 5
 \<and> connectionUptime (statsRef (onMessage_numeric 4 15 (accepted 42 [7]) initial_hook)) = 0"
  using uptime_since_observed_open [of 4 15 42 "[7]" "render_hook 1 4 Open 10 initial_hook" 1 4 10]
    uptime_since_observed_open [of 4 15 42 "[7]" initial_hook 1 4 10]
  by (simp add: render_hook_connect_time initial_hook_def)

section \<open>Render scheduler\<close>


lemma sched_inv_scheduleRender:
  "sched_inv st \<Longrightarrow> sched_inv (scheduleRender st)"
  by (auto simp: sched_inv_def scheduleRender_def split: option.splits)









subsection \<open>The chart's effect\<close>

lemma render_chart_keeps [simp]:
  "paused (render_chart m w h names nid st cs) = paused cs"
  "view (render_chart m w h names nid st cs) = view cs"
  "visibleChannelsId (render_chart m w h names nid st cs) = visibleChannelsId cs"
  by (simp_all add: render_chart_def Let_def)

lemma chart_deps_render_chart [simp]:
  "chart_deps nid st (render_chart m w h names nid' st' cs) = chart_deps nid st cs"
  by (simp add: chart_deps_def)

lemma render_chart_effectDeps [simp]:
  "effectDeps (render_chart m w h names nid st cs) = Some (chart_deps nid st cs)"
  by (simp add: render_chart_def Let_def)





lemma fold_raf_callback_keeps:
  "buffersRef (fold (\<lambda>h s. raf_callback s) hs s) = buffersRef s"
  "tsRef (fold (\<lambda>h s. raf_callback s) hs s) = tsRef s"
  "sampleCountRef (fold (\<lambda>h s. raf_callback s) hs s) = sampleCountRef s"
  "writeHeadRef (fold (\<lambda>h s. raf_callback s) hs s) = writeHeadRef s"
  "allocId (fold (\<lambda>h s. raf_callback s) hs s) = allocId s"
  by (induction hs arbitrary: s) (simp_all add: raf_callback_def)

lemma animation_frame_keeps [simp]:
  "buffersRef (animation_frame st) = buffersRef st"
  "tsRef (animation_frame st) = tsRef st"
  "sampleCountRef (animation_frame st) = sampleCountRef st"
  "writeHeadRef (animation_frame st) = writeHeadRef st"
  "allocId (animation_frame st) = allocId st"
  by (simp_all add: animation_frame_def fold_raf_callback_keeps)





subsection \<open>Sample bursts\<close>









section \<open>Label fitting\<close>

lemma midpoint:
  "nat \<lceil>(real lo + real hi) / 2\<rceil> = (lo + hi + 1) div 2"
proof -
  have "(real lo + real hi) / 2 = real_of_int (int lo + int hi) / real_of_int 2"
    by simp
  then have "\<lceil>(real lo + real hi) / 2\<rceil> = - (- (int lo + int hi) div 2)"
    by (simp only: ceiling_divide_eq_div)
  then show ?thesis by linarith
qed

lemma fit_search_longest:
  "width_mono m s \<Longrightarrow> lo \<le> hi \<Longrightarrow> hi \<le> length s \<Longrightarrow> fits m s W lo \<Longrightarrow>
     (\<forall>j. hi < j \<and> j \<le> length s \<longrightarrow> \<not> fits m s W j) \<Longrightarrow>
     lo \<le> fit_search m s W lo hi \<and> fit_search m s W lo hi \<le> hi
   \<and> fits m s W (fit_search m s W lo hi)
   \<and> (\<forall>j. j \<le> length s \<and> fits m s W j \<longrightarrow> j \<le> fit_search m s W lo hi)"
proof (induction m s W lo hi rule: fit_search.induct)
  case (1 m s W lo hi)
  let ?mid = "nat \<lceil>(real lo + real hi) / 2\<rceil>"
  show ?case
  proof (cases "lo < hi")
    case False
    with "1.prems" have eq: "lo = hi" by simp
    have res: "fit_search m s W lo hi = lo"
      using False by (subst fit_search.simps) simp
    have "\<forall>j. j \<le> length s \<and> fits m s W j \<longrightarrow> j \<le> lo"
      using "1.prems"(5) eq by (meson not_le_imp_less)
    with "1.prems" show ?thesis unfolding res by simp
  next
    case True
    have mid: "lo < ?mid" "?mid \<le> hi" using True by (simp_all add: midpoint)
    show ?thesis
    proof (cases "m (take ?mid s @ ellipsis) \<le> W")
      case fit: True
      have res: "fit_search m s W lo hi = fit_search m s W ?mid hi"
        using True fit by (subst fit_search.simps) (simp add: Let_def)
      have "?mid \<le> fit_search m s W ?mid hi \<and> fit_search m s W ?mid hi \<le> hi
          \<and> fits m s W (fit_search m s W ?mid hi)
          \<and> (\<forall>j. j \<le> length s \<and> fits m s W j \<longrightarrow> j \<le> fit_search m s W ?mid hi)"
      proof (rule "1.IH"(1) [OF True refl fit "1.prems"(1)])
        show "?mid \<le> hi" by (rule mid(2))
        show "hi \<le> length s" by (rule "1.prems"(3))
        show "fits m s W ?mid" using fit by (simp add: fits_def)
        show "\<forall>j. hi < j \<and> j \<le> length s \<longrightarrow> \<not> fits m s W j"
          by (rule "1.prems"(5))
      qed
      then have r: "?mid \<le> fit_search m s W ?mid hi" "fit_search m s W ?mid hi \<le> hi"
        "fits m s W (fit_search m s W ?mid hi)"
        "\<forall>j. j \<le> length s \<and> fits m s W j \<longrightarrow> j \<le> fit_search m s W ?mid hi"
        by blast+
      have "lo \<le> fit_search m s W ?mid hi" using mid(1) r(1) by linarith
      with r show ?thesis unfolding res by blast
    next
      case nofit: False
      have res: "fit_search m s W lo hi = fit_search m s W lo (?mid - 1)"
        using True nofit by (subst fit_search.simps) (simp add: Let_def)
      have above: "\<not> fits m s W j" if "?mid - 1 < j" "j \<le> length s" for j
      proof
        assume "fits m s W j"
        moreover have "?mid \<le> j" using that(1) by linarith
        then have "m (take ?mid s @ ellipsis) \<le> m (take j s @ ellipsis)"
          using "1.prems"(1) that(2) unfolding width_mono_def by blast
        ultimately show False using nofit by (simp add: fits_def)
      qed
      have "lo \<le> fit_search m s W lo (?mid - 1) \<and> fit_search m s W lo (?mid - 1) \<le> ?mid - 1
          \<and> fits m s W (fit_search m s W lo (?mid - 1))
          \<and> (\<forall>j. j \<le> length s \<and> fits m s W j \<longrightarrow> j \<le> fit_search m s W lo (?mid - 1))"
      proof (rule "1.IH"(2) [OF True refl nofit "1.prems"(1)])
        show "lo \<le> ?mid - 1" using mid(1) by linarith
        show "?mid - 1 \<le> length s" using mid(2) "1.prems"(3) by linarith
        show "fits m s W lo" by (rule "1.prems"(4))
        show "\<forall>j. ?mid - 1 < j \<and> j \<le> length s \<longrightarrow> \<not> fits m s W j"
          using above by blast
      qed
      then have r: "lo \<le> fit_search m s W lo (?mid - 1)"
        "fit_search m s W lo (?mid - 1) \<le> ?mid - 1"
        "fits m s W (fit_search m s W lo (?mid - 1))"
        "\<forall>j. j \<le> length s \<and> fits m s W j \<longrightarrow> j \<le> fit_search m s W lo (?mid - 1)"
        by blast+
      have "fit_search m s W lo (?mid - 1) \<le> hi" using mid(2) r(2) by linarith
      with r show ?thesis unfolding res by blast
    qed
  qed
qed

lemma width_mono_unit: "width_mono unit_width s"
  by (simp add: width_mono_def unit_width_def)

text \<open>
  Claim C6, as amended. With a measured width that is monotone in the prefix length:
  for a positive budget, a text no wider than the budget is returned unchanged; a wider
  text, when the ellipsis alone fits, becomes its longest prefix that fits with the
  ellipsis appended, followed by the ellipsis; and the result is the empty string when
  the budget is not positive, or when the text is too wide and the ellipsis alone is
  too wide as well.
\<close>

theorem fitTextToWidth_longest_prefix:
  assumes "width_mono m s"
  shows "(0 < W \<and> m s \<le> W \<longrightarrow> fitTextToWidth m s W = s)
       \<and> (0 < W \<and> W < m s \<and> m ellipsis \<le> W \<longrightarrow>
            (\<exists>k \<le> length s.
                fitTextToWidth m s W = take k s @ ellipsis
              \<and> m (take k s @ ellipsis) \<le> W
              \<and> (\<forall>j \<le> length s. m (take j s @ ellipsis) \<le> W \<longrightarrow> j \<le> k)))
       \<and> (W \<le> 0 \<or> (W < m s \<and> W < m ellipsis) \<longrightarrow> fitTextToWidth m s W = [])"
proof (intro conjI impI)
  assume "0 < W \<and> m s \<le> W"
  then show "fitTextToWidth m s W = s" by (simp add: fitTextToWidth_def)
next
  assume a: "0 < W \<and> W < m s \<and> m ellipsis \<le> W"
  let ?k = "fit_search m s W 0 (length s)"
  have res: "fitTextToWidth m s W = take ?k s @ ellipsis"
    using a by (simp add: fitTextToWidth_def)
  have "fits m s W 0" using a by (simp add: fits_def)
  then have "0 \<le> ?k \<and> ?k \<le> length s \<and> fits m s W ?k
      \<and> (\<forall>j. j \<le> length s \<and> fits m s W j \<longrightarrow> j \<le> ?k)"
    using assms by (intro fit_search_longest) auto
  then show "\<exists>k \<le> length s.
                fitTextToWidth m s W = take k s @ ellipsis
              \<and> m (take k s @ ellipsis) \<le> W
              \<and> (\<forall>j \<le> length s. m (take j s @ ellipsis) \<le> W \<longrightarrow> j \<le> k)"
    unfolding res fits_def by blast
next
  assume "W \<le> 0 \<or> (W < m s \<and> W < m ellipsis)"
  then show "fitTextToWidth m s W = []" by (auto simp: fitTextToWidth_def)
qed

text \<open>
  Claim C6 as stated fails: a text of width 4 with budget 2, under a monotone measure
  that gives the ellipsis the width 3, comes back empty, which is no prefix followed
  by the ellipsis.
\<close>

theorem fitTextToWidth_ellipsis_too_wide:
  "width_mono unit_width ''abcd''
 \<and> 2 < unit_width ''abcd''
 \<and> fitTextToWidth unit_width ''abcd'' 2 = []
 \<and> length (fitTextToWidth unit_width ''abcd'' 2) < length ellipsis"
  by (simp add: width_mono_unit fitTextToWidth_def unit_width_def ellipsis_def)

text \<open>The three cases on concrete labels.\<close>

theorem fitTextToWidth_witness:
  "width_mono unit_width ''abcdefgh''
 \<and> fitTextToWidth unit_width ''abcdefgh'' 6 = ''abc...''
 \<and> fitTextToWidth unit_width ''abc'' 6 = ''abc''
 \<and> fitTextToWidth unit_width ''abcd'' 2 = []"
proof -
  have mono: "width_mono unit_width s" for s by (rule width_mono_unit)
  note long = fitTextToWidth_longest_prefix [OF mono, of 6 "''abcdefgh''"]
  note short = fitTextToWidth_longest_prefix [OF mono, of 6 "''abc''"]
  note none = fitTextToWidth_longest_prefix [OF mono, of 2 "''abcd''"]
  from long obtain k where k: "k \<le> 8"
      "fitTextToWidth unit_width ''abcdefgh'' 6 = take k ''abcdefgh'' @ ellipsis"
      "unit_width (take k ''abcdefgh'' @ ellipsis) \<le> 6"
      "\<forall>j \<le> 8. unit_width (take j ''abcdefgh'' @ ellipsis) \<le> 6 \<longrightarrow> j \<le> k"
    by (auto simp: unit_width_def ellipsis_def)
  from k(3) have "k \<le> 3" by (simp add: unit_width_def ellipsis_def)
  moreover from k(4) have "3 \<le> k"
    by (drule_tac x = 3 in spec) (simp add: unit_width_def ellipsis_def)
  ultimately have "k = 3" by simp
  with k(2) have "fitTextToWidth unit_width ''abcdefgh'' 6 = ''abc...''"
    by (simp add: ellipsis_def)
  moreover from short have "fitTextToWidth unit_width ''abc'' 6 = ''abc''"
    by (simp add: unit_width_def)
  moreover from none have "fitTextToWidth unit_width ''abcd'' 2 = []"
    by (simp add: unit_width_def ellipsis_def)
  ultimately show ?thesis using mono by simp
qed

section \<open>Window geometry\<close>

subsection \<open>Rounding\<close>








lemma js_sub_Num [simp]: "js_sub (Num a) (Num b) = fl64 (a - b)"
  by (simp add: js_sub_def)




lemmas fl64_eval = fl64_def exponent_def bits.simps pow2_def round_half_even_def Let_def

lemma fl64_examples:
  "fl64 (5 - 1) = Num 4"
  "fl64 (5 + 1) = Num 6"
  "fl64 (6 - 4) = Num 2"
  "fl64 (2 * double_0_1) = Num (3602879701896397 / 18014398509481984)"
  "fl64 (4 - 3602879701896397 / 18014398509481984) = Num (4278419646001971 / 1125899906842624)"
  "fl64 (6 + 3602879701896397 / 18014398509481984) = Num (6980579422424269 / 1125899906842624)"
  by (simp_all add: fl64_eval double_0_1_def)

lemma pad_range_five:
  "pad_range double_0_1 5 5 =
     (Num (4278419646001971 / 1125899906842624), Num (6980579422424269 / 1125899906842624))"
  by (simp add: pad_range_def fl64_eval double_0_1_def)

subsection \<open>The scan\<close>







subsection \<open>Sample snapshots\<close>

lemma constant_lane_scan:
  "scan_window constant_lane_props [5, 5, 5, 0] (- 3) [0..<sampleCount constant_lane_props]
     (None, None, 0) = Inr (Some 5, Some 5, 3)"
proof -
  have "[0..<sampleCount constant_lane_props] = [0, 1, 2]"
    by (simp add: constant_lane_props_def upt_rec)
  then show ?thesis
    by (simp add: ring_index_def js_rem_def read_cell_def constant_lane_props_def)
qed



text \<open>
  Beyond \<open>2\<^sup>5\<^sup>3\<close> the opening by one is absorbed by rounding and the axis of a constant
  channel stays degenerate.
\<close>

lemma pad_range_large:
  "pad_range double_0_1 (2 ^ 60) (2 ^ 60) = (Num (2 ^ 60), Num (2 ^ 60))"
  by (simp add: pad_range_def fl64_eval double_0_1_def)

text \<open>The whole draw of the constant snapshot, 800 by 400, in stacked mode.\<close>

lemma draw_constant_lane:
  "draw unit_width 800 400 constant_lane_props default_view =
     Inr (StackedLanes 90
            [\<lparr> lane_channel = 0, laneTop = 8, laneH = 368,
               lane_axis = Some (Num (4278419646001971 / 1125899906842624),
                                 Num (6980579422424269 / 1125899906842624)),
               lane_label = Some ''Fp1'' \<rparr>])"
proof -
  have r: "lane_range constant_lane_props [5, 5, 5, 0] (- 3) =
     Inr (Some (Num (4278419646001971 / 1125899906842624),
                Num (6980579422424269 / 1125899906842624)))"
    using constant_lane_scan by (simp add: lane_range_def pad_range_five)
  have a: "active_channels default_view (Suc 0) = [0]"
    by (simp add: active_channels_def default_view_def)
  have g: "left_gutter unit_width [''Fp1''] [0] = 90"
    by (simp add: left_gutter_def label_of_def unit_width_def)
  have l: "fitTextToWidth unit_width (label_of [''Fp1''] 0) 76 = ''Fp1''"
    by (simp add: fitTextToWidth_def label_of_def unit_width_def)
  have p: "channelBuffers constant_lane_props = [[5, 5, 5, 0]]" "timestamps constant_lane_props = [0, 1, 2, 0]"
    "sampleCount constant_lane_props = 3" "writeHead constant_lane_props = 3"
    "channelNames constant_lane_props = [''Fp1'']"
    by (simp_all add: constant_lane_props_def)
  have v: "stacked default_view" "windowSeconds default_view = 5"
    by (simp_all add: default_view_def)
  show ?thesis
    by (simp add: draw_def p v a g l r js_rem_def read_cell_def lane_height_def Let_def)
qed

subsection \<open>Empty states\<close>

text \<open>Every hazard below the lane division is a read outside an array.\<close>

lemma read_cell_hazard: "read_cell xs idx = Inl e \<Longrightarrow> e = IndexOutOfRange"
  by (auto simp: read_cell_def split: option.splits if_splits)

lemma scan_window_hazard:
  "scan_window p buf startTime is acc = Inl e \<Longrightarrow> e = IndexOutOfRange"
proof (induction "is" arbitrary: acc)
  case Nil
  then show ?case by simp
next
  case (Cons i "is")
  then show ?case
    by (auto split: sum.splits if_splits dest: read_cell_hazard)
qed

lemma lane_range_hazard: "lane_range p buf startTime = Inl e \<Longrightarrow> e = IndexOutOfRange"
  by (auto simp: lane_range_def split: sum.splits prod.splits dest: scan_window_hazard)

lemma stacked_lanes_hazard:
  "stacked_lanes m p startTime gutter h chs laneIdx = Inl e \<Longrightarrow> e = IndexOutOfRange"
proof (induction chs arbitrary: laneIdx)
  case Nil
  then show ?case by simp
next
  case (Cons ch chs)
  then show ?case
    by (auto split: sum.splits dest: lane_range_hazard)
qed

lemma scan_channels_hazard:
  "scan_channels p startTime chs acc = Inl e \<Longrightarrow> e = IndexOutOfRange"
proof (induction chs arbitrary: acc)
  case Nil
  then show ?case by simp
next
  case (Cons ch chs)
  then show ?case
    by (auto split: sum.splits dest: scan_window_hazard)
qed

lemma draw_hazard: "draw m w h p v = Inl e \<Longrightarrow> e = IndexOutOfRange"
  by (auto simp: draw_def lane_height_def Let_def
        split: if_splits sum.splits prod.splits
        dest: read_cell_hazard stacked_lanes_hazard scan_channels_hazard)

text \<open>
  Claim C10. With \<open>sampleCount = 0\<close> the draw is the placeholder alone, with no hazard:
  no geometry is computed. With data and no active channel it paints nothing; with an
  empty visibility set it paints nothing, or the placeholder when there is no data
  either. The lane division never has a zero divisor.
\<close>

theorem draw_empty_states:
  "(sampleCount p = 0 \<longrightarrow> draw m w h p v = Inr WaitingForData)
 \<and> (sampleCount p \<noteq> 0 \<and> channelBuffers p \<noteq> []
      \<and> active_channels v (length (channelBuffers p)) = [] \<longrightarrow> draw m w h p v = Inr Blank)
 \<and> (visibleChannels v = [] \<longrightarrow>
      draw m w h p v =
        Inr (if sampleCount p = 0 \<or> channelBuffers p = [] then WaitingForData else Blank))
 \<and> draw m w h p v \<noteq> Inl DivisionByZero"
proof -
  have "draw m w h p v \<noteq> Inl DivisionByZero"
    using draw_hazard [of m w h p v DivisionByZero] by auto
  then show ?thesis
    by (simp add: draw_def active_channels_def Let_def)
qed

text \<open>A fresh buffer, and a filled one with every channel hidden.\<close>

theorem draw_empty_witness:
  "draw unit_width 800 400 (snapshot [''Fp1''] (ensure_buffers 1 4 initial_hook)) default_view
     = Inr WaitingForData
 \<and> draw unit_width 800 400 constant_lane_props (default_view\<lparr> visibleChannels := [] \<rparr>)
     = Inr Blank"
  using draw_empty_states [of "snapshot [''Fp1''] (ensure_buffers 1 4 initial_hook)"
          unit_width 800 400 default_view]
    draw_empty_states [of constant_lane_props unit_width 800 400
          "default_view\<lparr> visibleChannels := [] \<rparr>"]
  by (simp add: snapshot_def ensure_buffers_def initial_hook_def constant_lane_props_def)

end
